theory Spec2Isabelle
  imports Main
begin

section \<open>JSON values\<close>

text \<open>
  The control message and the engine exchange \<^verbatim>\<open>nlohmann::json\<close> values. An object
  is a list of key/value pairs read through \<open>map_of\<close>. Numbers are integers: the code
  modelled here never computes with a number, it moves JSON values around and looks at
  the shape of a task.
\<close>

datatype json =
    JNull
  | JBool bool
  | JNumber int
  | JString string
  | JArray "json list"
  | JObject "(string \<times> json) list"

section \<open>Errors\<close>

text \<open>
  Every \<^verbatim>\<open>throw\<close> of the two translation units is a constructor. The
  \<^verbatim>\<open>std::runtime_error\<close>s are told apart by their message and carry the names
  the specification gives them; \<open>JsonException\<close> stands for the exceptions that
  \<^verbatim>\<open>nlohmann::json\<close> raises from \<^verbatim>\<open>at\<close>, \<^verbatim>\<open>operator[]\<close> and
  \<^verbatim>\<open>get\<close>; \<open>ExternalError\<close> is anything thrown by a node or a task handler;
  \<open>DoubleComplete\<close> is the contract violation of completing a context twice.
\<close>

datatype error =
    NullMessage
  | NoEngineTask
  | UnhandledOutputs
  | MixedTaskCategories
  | NoTasksOfType string
  | JsonException
  | ExternalError string
  | DoubleComplete

section \<open>The control message (\<^verbatim>\<open>messages/control.cpp\<close>)\<close>

datatype ControlMessageType = NONE | INFERENCE | TRAINING

text \<open>
  \<open>m_tasks\<close> is a JSON object from task type to a JSON array of tasks. The member is
  private and is written only by \<^verbatim>\<open>add_task\<close> (\<^verbatim>\<open>push_back\<close> on the entry),
  \<^verbatim>\<open>remove_task\<close> (\<^verbatim>\<open>erase\<close> of the first element) and the copy constructor,
  so every entry is an array: the model is a map from the type to the list of queued
  tasks. A key that is absent and a key bound to \<open>[]\<close> are different states, as in the
  code (\<^verbatim>\<open>remove_task\<close> leaves the empty array behind).
  \<open>m_payload\<close> and \<open>m_obj_payload\<close> are handles (\<open>None\<close> is the null pointer,
  respectively the empty \<^verbatim>\<open>py::object\<close>).
\<close>

record control_message =
  m_cm_type :: ControlMessageType
  m_payload :: "nat option"
  m_obj_payload :: "nat option"
  m_tasks :: "string \<rightharpoonup> json list"
  m_config :: json

definition s_task_type_map :: "string \<rightharpoonup> ControlMessageType" where
  "s_task_type_map = [''inference'' \<mapsto> INFERENCE, ''training'' \<mapsto> TRAINING]"

text \<open>
  Modelled from the spec: the default member initialisers of \<^verbatim>\<open>control.hpp\<close>, which
  is not among the sources. Neither constructor of \<^verbatim>\<open>control.cpp\<close> assigns the
  discriminator, the payload or the attached object, so a new message has whatever the
  class declaration gives them: the discriminator that is not yet "set to one of
  INFERENCE, TRAINING" is \<open>NONE\<close>, and the two payload slots are empty.
\<close>

definition default_members :: control_message where
  "default_members =
     \<lparr>m_cm_type = NONE, m_payload = None, m_obj_payload = None,
      m_tasks = Map.empty, m_config = JNull\<rparr>"

definition ControlMessage_new :: control_message where
  "ControlMessage_new =
     default_members\<lparr>m_config := JObject [(''metadata'', JObject [])], m_tasks := Map.empty\<rparr>"

definition ControlMessage_copy :: "control_message \<Rightarrow> control_message" where
  "ControlMessage_copy other =
     default_members\<lparr>m_config := m_config other, m_tasks := m_tasks other\<rparr>"

definition task_type :: "control_message \<Rightarrow> ControlMessageType" where
  "task_type msg = m_cm_type msg"

definition set_task_type :: "control_message \<Rightarrow> ControlMessageType \<Rightarrow> control_message" where
  "set_task_type msg type = msg\<lparr>m_cm_type := type\<rparr>"

definition payload :: "control_message \<Rightarrow> nat option" where
  "payload msg = m_payload msg"

definition set_payload :: "control_message \<Rightarrow> nat option \<Rightarrow> control_message" where
  "set_payload msg p = msg\<lparr>m_payload := p\<rparr>"

definition attach_object :: "control_message \<Rightarrow> nat option \<Rightarrow> control_message" where
  "attach_object msg v = msg\<lparr>m_obj_payload := v\<rparr>"

definition get_object :: "control_message \<Rightarrow> nat option" where
  "get_object msg = m_obj_payload msg"

text \<open>
  \<^verbatim>\<open>add_task\<close>. The result is the outcome together with the message as the call
  leaves it, also when it throws. \<^verbatim>\<open>m_tasks[task_type].push_back(task)\<close> creates
  the entry when the key is new. The \<^verbatim>\<open>VLOG\<close> line only writes to the log and is
  left out.
\<close>

definition add_task ::
  "control_message \<Rightarrow> string \<Rightarrow> json \<Rightarrow> (error + unit) \<times> control_message" where
  "add_task msg type task =
     (let type' = (case s_task_type_map type of Some c \<Rightarrow> c | None \<Rightarrow> NONE);
          msg1 = (if task_type msg = NONE then set_task_type msg type' else msg)
      in if type' \<noteq> NONE \<and> task_type msg1 \<noteq> type'
         then (Inl MixedTaskCategories, msg1)
         else (Inr (),
               msg1\<lparr>m_tasks := (m_tasks msg1)
                  (type \<mapsto> (case m_tasks msg1 type of None \<Rightarrow> [] | Some q \<Rightarrow> q) @ [task])\<rparr>))"

definition has_task :: "control_message \<Rightarrow> string \<Rightarrow> bool" where
  "has_task msg type =
     (case m_tasks msg type of None \<Rightarrow> False | Some q \<Rightarrow> length q > 0)"

text \<open>
  \<^verbatim>\<open>remove_task\<close>: \<^verbatim>\<open>m_tasks.at(task_type)\<close> throws for a key that was never
  added; an entry that is there but empty reaches the \<^verbatim>\<open>runtime_error\<close>.
\<close>

definition remove_task ::
  "control_message \<Rightarrow> string \<Rightarrow> (error + json) \<times> control_message" where
  "remove_task msg type =
     (case m_tasks msg type of
        None \<Rightarrow> (Inl JsonException, msg)
      | Some [] \<Rightarrow> (Inl (NoTasksOfType type), msg)
      | Some (task # rest) \<Rightarrow> (Inr task, msg\<lparr>m_tasks := (m_tasks msg)(type \<mapsto> rest)\<rparr>))"

text \<open>The tasks queued under a type, oldest first; none when the key is absent.\<close>

definition queued :: "control_message \<Rightarrow> string \<Rightarrow> json list" where
  "queued msg type = (case m_tasks msg type of None \<Rightarrow> [] | Some q \<Rightarrow> q)"

section \<open>The context (\<^verbatim>\<open>llm/llm_context.hpp\<close>)\<close>

text \<open>
  Modelled from the spec: \<^verbatim>\<open>LLMTask\<close>, whose declaration is not among the
  sources, is the immutable pair of a task type and a task dictionary.
\<close>

datatype LLMTask = LLMTask (llm_task_type: string) (llm_task_dict: json)

text \<open>
  The members of \<^verbatim>\<open>LLMContext\<close> as the header declares them, for a root context:
  \<open>m_parent\<close> is null there and is left out, as are the promise and the future, of
  which \<open>outputs_ready\<close> keeps whether the signal has fired. The shared
  \<^verbatim>\<open>LLMContextState\<close> is written in place: \<open>state_task\<close> and \<open>state_values\<close>;
  its third member is the pointer to the control message, and the message it points to
  is kept next to the context in the state of the engine, below. \<open>m_outputs\<close> is a
  JSON object, from key to value, and \<open>state_values\<close> maps the name of a context to
  the object it published. An input mapping is a pair of an external and an internal
  name.
\<close>

type_synonym json_object = "string \<rightharpoonup> json"

record llm_context =
  m_name :: string
  m_inputs :: "(string \<times> string) list"
  m_output_names :: "string list"
  state_task :: LLMTask
  state_values :: "string \<rightharpoonup> json_object"
  m_outputs :: json_object
  outputs_ready :: bool

text \<open>
  Modelled from the spec: the constructor \<^verbatim>\<open>LLMContext(task, message)\<close> is declared
  in the header and defined in a file that is not among the sources. The specification
  has it make a root context with an empty name, no inputs, a fresh state holding the
  task and the message, no outputs, no output names and a pending completion signal.
\<close>

definition LLMContext :: "LLMTask \<Rightarrow> llm_context" where
  "LLMContext task =
     \<lparr>m_name = [], m_inputs = [], m_output_names = [], state_task = task,
      state_values = Map.empty, m_outputs = Map.empty, outputs_ready = False\<rparr>"

text \<open>
  Modelled from the spec: \<^verbatim>\<open>LLMContext::outputs_complete\<close> is declared in the header
  and defined in a file that is not among the sources. The specification has it filter
  \<open>outputs\<close> by \<open>output_names\<close> when that list is not empty, write the filtered
  object into \<open>state.values[name]\<close> and switch \<open>outputs_ready\<close> from pending to
  ready, in one step; a second call is a fatal contract violation.
\<close>

definition outputs_complete :: "llm_context \<Rightarrow> error + llm_context" where
  "outputs_complete ctx =
     (if outputs_ready ctx then Inl DoubleComplete
      else Inr (ctx\<lparr>state_values := (state_values ctx)
                      (m_name ctx \<mapsto>
                         (if m_output_names ctx = [] then m_outputs ctx
                          else m_outputs ctx |` set (m_output_names ctx))),
                    outputs_ready := True\<rparr>))"

section \<open>The engine (\<^verbatim>\<open>llm/llm_engine.cpp\<close>)\<close>

text \<open>
  \<^verbatim>\<open>current_task["task_type"].get<std::string>()\<close> and
  \<^verbatim>\<open>current_task.at("task_dict")\<close>, the two arguments from which \<^verbatim>\<open>tmp_task\<close>
  is built. \<^verbatim>\<open>current_task\<close> is a local copy, so the entry that
  \<^verbatim>\<open>operator[]\<close> would add for a missing key is never seen: \<^verbatim>\<open>get\<close> throws on
  it at once. On a task that is not an object, or lacks one of the two keys, or whose
  type is not a string, the construction throws a JSON exception, whichever argument is
  evaluated first.
\<close>

fun json_at :: "json \<Rightarrow> string \<Rightarrow> error + json" where
  "json_at (JObject kvs) key =
     (case map_of kvs key of Some v \<Rightarrow> Inr v | None \<Rightarrow> Inl JsonException)"
| "json_at _ key = Inl JsonException"

fun json_get_string :: "json \<Rightarrow> error + string" where
  "json_get_string (JString s) = Inr s"
| "json_get_string _ = Inl JsonException"

definition tmp_task :: "json \<Rightarrow> error + LLMTask" where
  "tmp_task current_task =
     (case json_at current_task ''task_type'' of
        Inl e \<Rightarrow> Inl e
      | Inr t \<Rightarrow>
          (case json_get_string t of
             Inl e \<Rightarrow> Inl e
           | Inr type \<Rightarrow>
               (case json_at current_task ''task_dict'' of
                  Inl e \<Rightarrow> Inl e
                | Inr dict \<Rightarrow> Inr (LLMTask type dict))))"

text \<open>
  The engine runs in a world it shares with its collaborators. Between two tasks that
  world is the control message \<^verbatim>\<open>input_message\<close> points to, and an opaque component
  \<open>'x\<close> for whatever else the collaborators keep (the handlers' own data, the services
  they talk to). While a task is being processed there is also its context. The context
  holds the same pointer to the message, so a node or a handler that is given the
  context may change both: what it receives and returns is the context together with
  the world.

  An awaited \<^verbatim>\<open>Task<T>\<close> is a function from that state to an outcome and the new
  state. \<^verbatim>\<open>execute\<close> (inherited from the node base class) and the runners'
  \<^verbatim>\<open>try_handle\<close> are defined outside these sources and are parameters. The
  messages a handler returns are shared pointers that the engine only copies: they are
  references, numbered.
\<close>

type_synonym message_ref = nat

type_synonym 'x world = "control_message \<times> 'x"

type_synonym ('x, 'a) Task = "llm_context \<times> 'x world \<Rightarrow> (error + 'a) \<times> llm_context \<times> 'x world"

type_synonym 'x runner = "('x, message_ref list option) Task"

fun handle_tasks :: "'x runner list \<Rightarrow> ('x, message_ref list) Task" where
  "handle_tasks [] (context, w) = (Inl UnhandledOutputs, (context, w))"
| "handle_tasks (task_handler # rest) (context, w) =
     (case task_handler (context, w) of
        (Inl e, s') \<Rightarrow> (Inl e, s')
      | (Inr (Some new_tasks), s') \<Rightarrow> (Inr new_tasks, s')
      | (Inr None, s') \<Rightarrow> handle_tasks rest s')"

text \<open>
  One turn of the \<^verbatim>\<open>while\<close> loop of \<^verbatim>\<open>run\<close>, lines 39 to 51. The context
  goes out of scope at the end of the turn; the message and the rest of the world stay.
\<close>

definition run_body ::
  "('x, unit) Task \<Rightarrow> 'x runner list \<Rightarrow> 'x world \<Rightarrow> (error + message_ref list) \<times> 'x world" where
  "run_body execute m_task_handlers w =
     (case remove_task (fst w) ''llm_engine'' of
        (Inl e, msg) \<Rightarrow> (Inl e, (msg, snd w))
      | (Inr current_task, msg) \<Rightarrow>
          (case tmp_task current_task of
             Inl e \<Rightarrow> (Inl e, (msg, snd w))
           | Inr task \<Rightarrow>
               (let context = LLMContext task in
                case execute (context, (msg, snd w)) of
                  (Inl e, s) \<Rightarrow> (Inl e, snd s)
                | (Inr _, s) \<Rightarrow>
                    (case handle_tasks m_task_handlers s of (tasks, s') \<Rightarrow> (tasks, snd s')))))"

text \<open>
  The loop. A node or a handler may queue further \<^verbatim>\<open>llm_engine\<close> tasks on the
  message it is given, so the loop need not end: \<open>None\<close> is the run that never returns.
\<close>

partial_function (option) run_loop ::
  "('x, unit) Task \<Rightarrow> 'x runner list \<Rightarrow> message_ref list \<Rightarrow> 'x world
     \<Rightarrow> ((error + message_ref list) \<times> 'x world) option" where
  "run_loop execute m_task_handlers output_messages w =
     (if has_task (fst w) ''llm_engine''
      then (case run_body execute m_task_handlers w of
              (Inl e, w') \<Rightarrow> Some (Inl e, w')
            | (Inr tasks, w') \<Rightarrow>
                run_loop execute m_task_handlers (output_messages @ tasks) w')
      else Some (Inr output_messages, w))"

text \<open>
  \<^verbatim>\<open>run\<close>. The argument is the shared pointer: \<open>None\<close> is the null pointer,
  \<open>Some msg\<close> points to a message in state \<open>msg\<close>.
\<close>

definition run ::
  "('x, unit) Task \<Rightarrow> 'x runner list \<Rightarrow> control_message option \<Rightarrow> 'x
     \<Rightarrow> ((error + message_ref list) \<times> control_message option \<times> 'x) option" where
  "run execute m_task_handlers input_message x =
     (case input_message of
        None \<Rightarrow> Some (Inl NullMessage, None, x)
      | Some msg \<Rightarrow>
          if \<not> has_task msg ''llm_engine''
          then Some (Inl NoEngineTask, Some msg, x)
          else map_option (\<lambda>(r, msg', x'). (r, Some msg', x'))
                 (run_loop execute m_task_handlers [] (msg, x)))"

subsection \<open>What a run drains\<close>

text \<open>
  The specification speaks of the runners that decline before one accepts, and of the
  tasks a run drains with the vector the chosen handler returned for each. Both are
  written down here from its words, to be compared with the code above.

  \<open>all_declined pre s\<close> is the state reached when the runners of \<open>pre\<close>, consulted
  in order from \<open>s\<close>, all return "no result"; it is \<open>None\<close> as soon as one of them
  accepts or throws.
\<close>

fun all_declined ::
  "'x runner list \<Rightarrow> llm_context \<times> 'x world \<Rightarrow> (llm_context \<times> 'x world) option" where
  "all_declined [] s = Some s"
| "all_declined (task_handler # rest) s =
     (case task_handler s of
        (Inr None, s') \<Rightarrow> all_declined rest s'
      | _ \<Rightarrow> None)"

text \<open>
  \<open>drains execute handlers w tvs w'\<close>: starting in \<open>w\<close>, the tasks of \<open>tvs\<close> are
  drained one after the other, each is executed in a root context of its own and handled
  without error, the handler chain returns the vector paired with it, and the world is
  then \<open>w'\<close>.
\<close>

inductive drains ::
  "('x, unit) Task \<Rightarrow> 'x runner list \<Rightarrow> 'x world
     \<Rightarrow> (LLMTask \<times> message_ref list) list \<Rightarrow> 'x world \<Rightarrow> bool"
  for execute m_task_handlers where
    drains_none: "drains execute m_task_handlers w [] w"
  | drains_task:
      "has_task (fst w) ''llm_engine'' \<Longrightarrow>
       remove_task (fst w) ''llm_engine'' = (Inr current_task, msg) \<Longrightarrow>
       tmp_task current_task = Inr task \<Longrightarrow>
       execute (LLMContext task, (msg, snd w)) = (Inr (), se) \<Longrightarrow>
       handle_tasks m_task_handlers se = (Inr tasks, (ctx, wh)) \<Longrightarrow>
       drains execute m_task_handlers wh rest w' \<Longrightarrow>
       drains execute m_task_handlers w ((task, tasks) # rest) w'"

code_pred drains .

section \<open>Sample inputs\<close>

text \<open>
  Concrete messages and collaborators on which the results below are evaluated. The
  opaque part of the world is a log: every runner writes its name there when it is
  consulted, so the log shows who was asked, and in which order.
\<close>

definition engine_task :: "string \<Rightarrow> json" where
  "engine_task prompt =
     JObject [(''task_type'', JString ''completion''),
              (''task_dict'', JObject [(''prompt'', JString prompt)])]"

definition prompt_task :: "string \<Rightarrow> LLMTask" where
  "prompt_task prompt = LLMTask ''completion'' (JObject [(''prompt'', JString prompt)])"

definition two_tasks :: control_message where
  "two_tasks = ControlMessage_new
     \<lparr>m_tasks := [''llm_engine'' \<mapsto> [engine_task ''a'', engine_task ''b'']]\<rparr>"

definition one_task :: control_message where
  "one_task = ControlMessage_new\<lparr>m_tasks := [''llm_engine'' \<mapsto> [engine_task ''b'']]\<rparr>"

definition no_task :: control_message where
  "no_task = ControlMessage_new\<lparr>m_tasks := [''llm_engine'' \<mapsto> []]\<rparr>"

definition noop_execute :: "(string list, unit) Task" where
  "noop_execute s = (Inr (), s)"

definition fails_on :: "string \<Rightarrow> (string list, unit) Task" where
  "fails_on prompt s =
     (if state_task (fst s) = prompt_task prompt
      then (Inl (ExternalError prompt), s) else (Inr (), s))"

definition logged :: "string \<Rightarrow> llm_context \<times> string list world \<Rightarrow> llm_context \<times> string list world" where
  "logged name s = (fst s, fst (snd s), snd (snd s) @ [name])"

definition declining :: "string \<Rightarrow> string list runner" where
  "declining name s = (Inr None, logged name s)"

definition accepting :: "string \<Rightarrow> message_ref list \<Rightarrow> string list runner" where
  "accepting name v s = (Inr (Some v), logged name s)"

definition accepting_prompt ::
  "string \<Rightarrow> string \<Rightarrow> message_ref list \<Rightarrow> string list runner" where
  "accepting_prompt name prompt v s =
     (if state_task (fst s) = prompt_task prompt then Inr (Some v) else Inr None,
      logged name s)"

lemmas sample_defs = two_tasks_def one_task_def no_task_def ControlMessage_new_def
  default_members_def engine_task_def prompt_task_def noop_execute_def fails_on_def logged_def
  declining_def accepting_def accepting_prompt_def LLMContext_def has_task_def remove_task_def
  tmp_task_def

section \<open>Properties of the control message\<close>

lemma queued_add_task:
  "add_task msg type task = (Inr u, msg') \<Longrightarrow>
     queued msg' t = (if t = type then queued msg type @ [task] else queued msg t)"
  by (auto simp: add_task_def queued_def Let_def task_type_def set_task_type_def
           split: if_splits option.splits)

lemma has_task_queued: "has_task msg type \<longleftrightarrow> queued msg type \<noteq> []"
  by (simp add: has_task_def queued_def split: option.splits)

text \<open>
  C6. Once the discriminator of a message is \<open>INFERENCE\<close> or \<open>TRAINING\<close>, adding a
  task of the other category fails with \<open>MixedTaskCategories\<close> and leaves the message,
  its task queues included, as it was. In particular, when an \<^verbatim>\<open>inference\<close> task has
  been added to a message, adding a \<^verbatim>\<open>training\<close> task to it fails.
\<close>

theorem add_task_mixed_categories:
  "(task_type msg = INFERENCE \<and> type = ''training'' \<or>
    task_type msg = TRAINING \<and> type = ''inference''
      \<longrightarrow> add_task msg type task = (Inl MixedTaskCategories, msg)) \<and>
   (add_task msg ''inference'' task1 = (Inr (), msg1)
      \<longrightarrow> add_task msg1 ''training'' task2 = (Inl MixedTaskCategories, msg1))"
  by (auto simp: add_task_def Let_def task_type_def set_task_type_def s_task_type_map_def
           split: if_splits)

theorem add_task_mixed_categories_witness:
  "task_type (ControlMessage_new\<lparr>m_cm_type := INFERENCE\<rparr>) = INFERENCE \<and>
   add_task (ControlMessage_new\<lparr>m_cm_type := INFERENCE\<rparr>) ''training'' (JObject [])
     = (Inl MixedTaskCategories, ControlMessage_new\<lparr>m_cm_type := INFERENCE\<rparr>) \<and>
   task_type (ControlMessage_new\<lparr>m_cm_type := TRAINING\<rparr>) = TRAINING \<and>
   add_task (ControlMessage_new\<lparr>m_cm_type := TRAINING\<rparr>) ''inference'' (JObject [])
     = (Inl MixedTaskCategories, ControlMessage_new\<lparr>m_cm_type := TRAINING\<rparr>) \<and>
   add_task ControlMessage_new ''inference'' (JObject [])
     = (Inr (), ControlMessage_new\<lparr>m_cm_type := INFERENCE,
                  m_tasks := [''inference'' \<mapsto> [JObject []]]\<rparr>) \<and>
   add_task (ControlMessage_new\<lparr>m_cm_type := INFERENCE,
                  m_tasks := [''inference'' \<mapsto> [JObject []]]\<rparr>) ''training'' JNull
     = (Inl MixedTaskCategories, ControlMessage_new\<lparr>m_cm_type := INFERENCE,
                  m_tasks := [''inference'' \<mapsto> [JObject []]]\<rparr>)"
proof -
  have a: "task_type (ControlMessage_new\<lparr>m_cm_type := INFERENCE\<rparr>) = INFERENCE"
    by (simp add: task_type_def)
  have b: "task_type (ControlMessage_new\<lparr>m_cm_type := TRAINING\<rparr>) = TRAINING"
    by (simp add: task_type_def)
  have c: "add_task ControlMessage_new ''inference'' (JObject [])
     = (Inr (), ControlMessage_new\<lparr>m_cm_type := INFERENCE,
                  m_tasks := [''inference'' \<mapsto> [JObject []]]\<rparr>)"
    by (simp add: add_task_def ControlMessage_new_def default_members_def task_type_def
          set_task_type_def s_task_type_map_def)
  show ?thesis
    using a b c
      add_task_mixed_categories [of "ControlMessage_new\<lparr>m_cm_type := INFERENCE\<rparr>"
         "''training''" "JObject []"]
      add_task_mixed_categories [of "ControlMessage_new\<lparr>m_cm_type := TRAINING\<rparr>"
         "''inference''" "JObject []"]
      add_task_mixed_categories [of ControlMessage_new _ _ "JObject []"
         "ControlMessage_new\<lparr>m_cm_type := INFERENCE,
                  m_tasks := [''inference'' \<mapsto> [JObject []]]\<rparr>" JNull]
    by simp
qed

text \<open>
  C10. For a task type other than \<^verbatim>\<open>inference\<close> and \<^verbatim>\<open>training\<close>,
  \<^verbatim>\<open>add_task\<close> succeeds whatever the discriminator is, changes nothing but the queue
  of that type, so the discriminator stays as it was, and puts the task at the end of the
  queue.
\<close>

theorem add_task_other_type:
  "type \<noteq> ''inference'' \<and> type \<noteq> ''training'' \<longrightarrow>
     add_task msg type task =
       (Inr (), msg\<lparr>m_tasks := (m_tasks msg)(type \<mapsto> queued msg type @ [task])\<rparr>) \<and>
     task_type (snd (add_task msg type task)) = task_type msg \<and>
     queued (snd (add_task msg type task)) type = queued msg type @ [task]"
  by (auto simp: add_task_def Let_def task_type_def set_task_type_def s_task_type_map_def
        queued_def split: if_splits)

theorem add_task_other_type_witness:
  "''llm_engine'' \<noteq> ''inference'' \<and> ''llm_engine'' \<noteq> ''training'' \<and>
   add_task (two_tasks\<lparr>m_cm_type := TRAINING\<rparr>) ''llm_engine'' (engine_task ''c'') =
     (Inr (), two_tasks\<lparr>m_cm_type := TRAINING,
        m_tasks := [''llm_engine'' \<mapsto> [engine_task ''a'', engine_task ''b'', engine_task ''c'']]\<rparr>) \<and>
   task_type (snd (add_task (two_tasks\<lparr>m_cm_type := TRAINING\<rparr>) ''llm_engine''
                     (engine_task ''c''))) = TRAINING"
  using add_task_other_type [of "''llm_engine''" "two_tasks\<lparr>m_cm_type := TRAINING\<rparr>"
          "engine_task ''c''"]
  by (simp add: two_tasks_def queued_def task_type_def)

text \<open>
  C7. \<^verbatim>\<open>remove_task\<close> returns the oldest task queued under the type and removes
  that entry and nothing else; the queues of the other types are untouched. It fails
  when no task of the type is queued (the key was never added, or its queue has been
  emptied). \<^verbatim>\<open>has_task\<close> holds exactly when the queue of the type is not empty. The
  queue is first in, first out, since \<^verbatim>\<open>add_task\<close> appends at its end.
\<close>

theorem remove_task_fifo:
  "(queued msg type = task # rest \<longrightarrow>
      remove_task msg type = (Inr task, msg\<lparr>m_tasks := (m_tasks msg)(type \<mapsto> rest)\<rparr>) \<and>
      queued (snd (remove_task msg type)) type = rest \<and>
      (\<forall>t. t \<noteq> type \<longrightarrow> queued (snd (remove_task msg type)) t = queued msg t)) \<and>
   (queued msg type = [] \<longrightarrow>
      remove_task msg type =
        (Inl (if m_tasks msg type = None then JsonException else NoTasksOfType type), msg)) \<and>
   (has_task msg type \<longleftrightarrow> queued msg type \<noteq> []) \<and>
   (add_task msg type task' = (Inr (), msg') \<longrightarrow> queued msg' type = queued msg type @ [task'])"
  by (auto simp: remove_task_def queued_def has_task_def add_task_def Let_def task_type_def
        set_task_type_def split: option.splits list.splits if_splits)

theorem remove_task_fifo_witness:
  "queued two_tasks ''llm_engine'' = engine_task ''a'' # [engine_task ''b''] \<and>
   remove_task two_tasks ''llm_engine'' =
     (Inr (engine_task ''a''), two_tasks\<lparr>m_tasks := [''llm_engine'' \<mapsto> [engine_task ''b'']]\<rparr>) \<and>
   queued two_tasks ''inference'' = [] \<and>
   remove_task two_tasks ''inference'' = (Inl JsonException, two_tasks) \<and>
   queued (two_tasks\<lparr>m_tasks := [''llm_engine'' \<mapsto> []]\<rparr>) ''llm_engine'' = [] \<and>
   remove_task (two_tasks\<lparr>m_tasks := [''llm_engine'' \<mapsto> []]\<rparr>) ''llm_engine'' =
     (Inl (NoTasksOfType ''llm_engine''), two_tasks\<lparr>m_tasks := [''llm_engine'' \<mapsto> []]\<rparr>) \<and>
   has_task two_tasks ''llm_engine'' \<and>
   \<not> has_task (two_tasks\<lparr>m_tasks := [''llm_engine'' \<mapsto> []]\<rparr>) ''llm_engine'' \<and>
   add_task two_tasks ''llm_engine'' (engine_task ''c'') =
     (Inr (), two_tasks\<lparr>m_tasks :=
        [''llm_engine'' \<mapsto> [engine_task ''a'', engine_task ''b'', engine_task ''c'']]\<rparr>) \<and>
   queued (two_tasks\<lparr>m_tasks :=
        [''llm_engine'' \<mapsto> [engine_task ''a'', engine_task ''b'', engine_task ''c'']]\<rparr>)
     ''llm_engine'' = queued two_tasks ''llm_engine'' @ [engine_task ''c'']"
proof -
  have q: "queued two_tasks ''llm_engine'' = engine_task ''a'' # [engine_task ''b'']"
    "queued two_tasks ''inference'' = []"
    "queued (two_tasks\<lparr>m_tasks := [''llm_engine'' \<mapsto> []]\<rparr>) ''llm_engine'' = []"
    by (simp_all add: queued_def two_tasks_def)
  have a: "add_task two_tasks ''llm_engine'' (engine_task ''c'') =
     (Inr (), two_tasks\<lparr>m_tasks :=
        [''llm_engine'' \<mapsto> [engine_task ''a'', engine_task ''b'', engine_task ''c'']]\<rparr>)"
    by (simp add: add_task_def two_tasks_def ControlMessage_new_def default_members_def
          task_type_def set_task_type_def s_task_type_map_def)
  show ?thesis
    using q a
      remove_task_fifo [of two_tasks "''llm_engine''" "engine_task ''a''" "[engine_task ''b'']"
        "engine_task ''c''" "two_tasks\<lparr>m_tasks :=
        [''llm_engine'' \<mapsto> [engine_task ''a'', engine_task ''b'', engine_task ''c'']]\<rparr>"]
      remove_task_fifo [of two_tasks "''inference''"]
      remove_task_fifo [of "two_tasks\<lparr>m_tasks := [''llm_engine'' \<mapsto> []]\<rparr>" "''llm_engine''"]
    by (simp add: two_tasks_def)
qed

text \<open>
  C9. The copy constructor copies the configuration (with the metadata in it) and the
  task queues and nothing else: the copy has no payload, no attached object, and its
  discriminator is \<open>NONE\<close>. So when adding an \<^verbatim>\<open>inference\<close> task has made a
  message an \<open>INFERENCE\<close> message, which refuses a \<^verbatim>\<open>training\<close> task, its copy
  accepts that task, becomes a \<open>TRAINING\<close> message and holds both queues.
\<close>

theorem copy_resets_category:
  "m_config (ControlMessage_copy other) = m_config other \<and>
   m_tasks (ControlMessage_copy other) = m_tasks other \<and>
   payload (ControlMessage_copy other) = None \<and>
   get_object (ControlMessage_copy other) = None \<and>
   task_type (ControlMessage_copy other) = NONE \<and>
   (add_task msg ''inference'' task1 = (Inr (), other) \<longrightarrow>
      task_type other = INFERENCE \<and>
      add_task other ''training'' task2 = (Inl MixedTaskCategories, other) \<and>
      add_task (ControlMessage_copy other) ''training'' task2 =
        (Inr (), (ControlMessage_copy other)
           \<lparr>m_cm_type := TRAINING,
            m_tasks := (m_tasks other)(''training'' \<mapsto> queued other ''training'' @ [task2])\<rparr>))"
  by (auto simp: ControlMessage_copy_def default_members_def payload_def get_object_def
        add_task_def Let_def task_type_def set_task_type_def s_task_type_map_def queued_def
        split: if_splits option.splits)

theorem copy_resets_category_witness:
  "add_task (set_payload (attach_object ControlMessage_new (Some 7)) (Some 3)) ''inference'' JNull =
     (Inr (), \<lparr>m_cm_type = INFERENCE, m_payload = Some 3, m_obj_payload = Some 7,
               m_tasks = [''inference'' \<mapsto> [JNull]],
               m_config = JObject [(''metadata'', JObject [])]\<rparr>) \<and>
   ControlMessage_copy \<lparr>m_cm_type = INFERENCE, m_payload = Some 3, m_obj_payload = Some 7,
               m_tasks = [''inference'' \<mapsto> [JNull]],
               m_config = JObject [(''metadata'', JObject [])]\<rparr> =
     \<lparr>m_cm_type = NONE, m_payload = None, m_obj_payload = None,
      m_tasks = [''inference'' \<mapsto> [JNull]],
      m_config = JObject [(''metadata'', JObject [])]\<rparr> \<and>
   add_task \<lparr>m_cm_type = NONE, m_payload = None, m_obj_payload = None,
      m_tasks = [''inference'' \<mapsto> [JNull]],
      m_config = JObject [(''metadata'', JObject [])]\<rparr> ''training'' (JBool True) =
     (Inr (), \<lparr>m_cm_type = TRAINING, m_payload = None, m_obj_payload = None,
      m_tasks = [''inference'' \<mapsto> [JNull], ''training'' \<mapsto> [JBool True]],
      m_config = JObject [(''metadata'', JObject [])]\<rparr>)"
proof -
  have a: "add_task (set_payload (attach_object ControlMessage_new (Some 7)) (Some 3))
      ''inference'' JNull =
     (Inr (), \<lparr>m_cm_type = INFERENCE, m_payload = Some 3, m_obj_payload = Some 7,
               m_tasks = [''inference'' \<mapsto> [JNull]],
               m_config = JObject [(''metadata'', JObject [])]\<rparr>)"
    by (simp add: add_task_def ControlMessage_new_def default_members_def task_type_def
          set_task_type_def s_task_type_map_def set_payload_def attach_object_def)
  have c: "ControlMessage_copy \<lparr>m_cm_type = INFERENCE, m_payload = Some 3, m_obj_payload = Some 7,
               m_tasks = [''inference'' \<mapsto> [JNull]],
               m_config = JObject [(''metadata'', JObject [])]\<rparr> =
     \<lparr>m_cm_type = NONE, m_payload = None, m_obj_payload = None,
      m_tasks = [''inference'' \<mapsto> [JNull]],
      m_config = JObject [(''metadata'', JObject [])]\<rparr>"
    by (simp add: ControlMessage_copy_def default_members_def)
  show ?thesis
    using a c
      copy_resets_category [of "\<lparr>m_cm_type = INFERENCE, m_payload = Some 3,
               m_obj_payload = Some 7, m_tasks = [''inference'' \<mapsto> [JNull]],
               m_config = JObject [(''metadata'', JObject [])]\<rparr>"
        "set_payload (attach_object ControlMessage_new (Some 7)) (Some 3)" JNull "JBool True"]
    by (simp add: queued_def)
qed

section \<open>Properties of the engine\<close>

subsection \<open>The handler chain\<close>

lemma handle_tasks_Cons:
  "handle_tasks (task_handler # rest) s =
     (case task_handler s of
        (Inl e, s') \<Rightarrow> (Inl e, s')
      | (Inr (Some new_tasks), s') \<Rightarrow> (Inr new_tasks, s')
      | (Inr None, s') \<Rightarrow> handle_tasks rest s')"
  by (cases s) simp

lemma handle_tasks_Nil: "handle_tasks [] s = (Inl UnhandledOutputs, s)"
  by (cases s) simp

lemma handle_tasks_declined:
  "all_declined pre s = Some s1 \<Longrightarrow> handle_tasks (pre @ post) s = handle_tasks post s1"
  by (induction pre arbitrary: s)
     (auto simp: handle_tasks_Cons split: prod.splits sum.splits option.splits)

lemma handle_tasks_accepted:
  "handle_tasks hs s = (Inr v, s2) \<Longrightarrow>
     \<exists>pre r post s1. hs = pre @ r # post \<and> all_declined pre s = Some s1 \<and>
        r s1 = (Inr (Some v), s2)"
proof (induction hs arbitrary: s)
  case Nil
  then show ?case by (simp add: handle_tasks_Nil)
next
  case (Cons h hs)
  obtain res s' where step: "h s = (res, s')"
    by (cases "h s") auto
  show ?case
  proof (cases res)
    case (Inl e)
    with step Cons.prems show ?thesis by (simp add: handle_tasks_Cons)
  next
    case (Inr opt)
    show ?thesis
    proof (cases opt)
      case None
      with step Inr Cons.prems have "handle_tasks hs s' = (Inr v, s2)"
        by (simp add: handle_tasks_Cons)
      from Cons.IH [OF this] obtain pre r post s1 where
        "hs = pre @ r # post" "all_declined pre s' = Some s1" "r s1 = (Inr (Some v), s2)"
        by blast
      with step Inr None have
        "h # hs = (h # pre) @ r # post \<and> all_declined (h # pre) s = Some s1 \<and>
           r s1 = (Inr (Some v), s2)" by simp
      then show ?thesis by blast
    next
      case (Some new_tasks)
      with step Inr Cons.prems have "h s = (Inr (Some v), s2)"
        by (simp add: handle_tasks_Cons)
      then have "h # hs = [] @ h # hs \<and> all_declined [] s = Some s \<and>
           h s = (Inr (Some v), s2)" by simp
      then show ?thesis by blast
    qed
  qed
qed

text \<open>
  C1. \<^verbatim>\<open>handle_tasks\<close> consults the runners in registration order. When the
  runners before some runner all return "no result" and that runner returns a vector,
  \<^verbatim>\<open>handle_tasks\<close> returns this vector as it is and stops there: the state is the
  one that runner left, whatever runners come after it. An empty vector is accepted like
  any other and gives an empty result, not an error. When every runner returns "no
  result", the call fails with \<open>UnhandledOutputs\<close>. Conversely every vector that
  \<^verbatim>\<open>handle_tasks\<close> returns comes from a runner before which all others declined.
\<close>

theorem handle_tasks_first_accepter:
  "(all_declined pre s = Some s1 \<and> r s1 = (Inr (Some v), s2)
      \<longrightarrow> handle_tasks (pre @ r # post) s = (Inr v, s2)) \<and>
   (all_declined pre s = Some s1 \<and> r s1 = (Inr (Some []), s2)
      \<longrightarrow> handle_tasks (pre @ r # post) s = (Inr [], s2)) \<and>
   (all_declined hs s = Some s'
      \<longrightarrow> handle_tasks hs s = (Inl UnhandledOutputs, s')) \<and>
   (handle_tasks hs s = (Inr v, s2)
      \<longrightarrow> (\<exists>pre r post s1. hs = pre @ r # post \<and> all_declined pre s = Some s1 \<and>
             r s1 = (Inr (Some v), s2)))"
proof (intro conjI impI)
  assume "all_declined pre s = Some s1 \<and> r s1 = (Inr (Some v), s2)"
  then show "handle_tasks (pre @ r # post) s = (Inr v, s2)"
    by (simp add: handle_tasks_declined handle_tasks_Cons)
next
  assume "all_declined pre s = Some s1 \<and> r s1 = (Inr (Some []), s2)"
  then show "handle_tasks (pre @ r # post) s = (Inr [], s2)"
    by (simp add: handle_tasks_declined handle_tasks_Cons)
next
  assume "all_declined hs s = Some s'"
  from handle_tasks_declined [OF this, of "[]"]
  show "handle_tasks hs s = (Inl UnhandledOutputs, s')"
    by (simp add: handle_tasks_Nil)
next
  assume "handle_tasks hs s = (Inr v, s2)"
  then show "\<exists>pre r post s1. hs = pre @ r # post \<and> all_declined pre s = Some s1 \<and>
             r s1 = (Inr (Some v), s2)"
    by (rule handle_tasks_accepted)
qed

theorem handle_tasks_first_accepter_witness:
  "all_declined [declining ''h1''] (LLMContext (prompt_task ''a''), no_task, []) =
     Some (LLMContext (prompt_task ''a''), no_task, [''h1'']) \<and>
   accepting ''h2'' [] (LLMContext (prompt_task ''a''), no_task, [''h1'']) =
     (Inr (Some []), (LLMContext (prompt_task ''a''), no_task, [''h1'', ''h2''])) \<and>
   handle_tasks ([declining ''h1''] @ accepting ''h2'' [] # [accepting ''h3'' [9]])
       (LLMContext (prompt_task ''a''), no_task, []) =
     (Inr [], (LLMContext (prompt_task ''a''), no_task, [''h1'', ''h2''])) \<and>
   all_declined [declining ''h1'', declining ''h2'']
       (LLMContext (prompt_task ''a''), no_task, []) =
     Some (LLMContext (prompt_task ''a''), no_task, [''h1'', ''h2'']) \<and>
   handle_tasks [declining ''h1'', declining ''h2'']
       (LLMContext (prompt_task ''a''), no_task, []) =
     (Inl UnhandledOutputs, (LLMContext (prompt_task ''a''), no_task, [''h1'', ''h2''])) \<and>
   handle_tasks [declining ''h1'', accepting ''h2'' [7, 8], accepting ''h3'' [9]]
       (LLMContext (prompt_task ''a''), no_task, []) =
     (Inr [7, 8], (LLMContext (prompt_task ''a''), no_task, [''h1'', ''h2''])) \<and>
   (\<exists>pre r post s1.
      [declining ''h1'', accepting ''h2'' [7, 8], accepting ''h3'' [9]] = pre @ r # post \<and>
      all_declined pre (LLMContext (prompt_task ''a''), no_task, []) = Some s1 \<and>
      r s1 = (Inr (Some [7, 8]), (LLMContext (prompt_task ''a''), no_task, [''h1'', ''h2''])))"
proof -
  let ?s = "(LLMContext (prompt_task ''a''), no_task, [])"
  let ?s1 = "(LLMContext (prompt_task ''a''), no_task, [''h1''])"
  let ?s2 = "(LLMContext (prompt_task ''a''), no_task, [''h1'', ''h2''])"
  have a: "all_declined [declining ''h1''] ?s = Some ?s1"
    by (simp add: declining_def logged_def)
  have b: "accepting ''h2'' [] ?s1 = (Inr (Some []), ?s2)"
    by (simp add: accepting_def logged_def)
  have c: "all_declined [declining ''h1'', declining ''h2''] ?s = Some ?s2"
    by (simp add: declining_def logged_def)
  have d: "handle_tasks [declining ''h1'', accepting ''h2'' [7, 8], accepting ''h3'' [9]] ?s =
             (Inr [7, 8], ?s2)"
    by (simp add: handle_tasks_Cons declining_def accepting_def logged_def)
  show ?thesis
    using a b c d
      handle_tasks_first_accepter [of "[declining ''h1'']" ?s ?s1 "accepting ''h2'' []" "[]" ?s2
        "[accepting ''h3'' [9]]" "[declining ''h1'', declining ''h2'']" ?s2]
      handle_tasks_first_accepter [of _ ?s _ _ "[7, 8]" ?s2 _
        "[declining ''h1'', accepting ''h2'' [7, 8], accepting ''h3'' [9]]"]
    by simp
qed

subsection \<open>The loop\<close>

lemma run_body_success:
  "run_body execute hs w = (Inr tasks, w') \<Longrightarrow>
     \<exists>current_task msg task se ctx.
        remove_task (fst w) ''llm_engine'' = (Inr current_task, msg) \<and>
        tmp_task current_task = Inr task \<and>
        execute (LLMContext task, (msg, snd w)) = (Inr (), se) \<and>
        handle_tasks hs se = (Inr tasks, (ctx, w'))"
  by (auto simp: run_body_def Let_def split: prod.splits sum.splits)

lemma run_body_drained:
  "remove_task (fst w) ''llm_engine'' = (Inr current_task, msg) \<Longrightarrow>
   tmp_task current_task = Inr task \<Longrightarrow>
   execute (LLMContext task, (msg, snd w)) = (Inr (), se) \<Longrightarrow>
   handle_tasks hs se = (r, sh) \<Longrightarrow>
     run_body execute hs w = (r, snd sh)"
  by (simp add: run_body_def)

lemma drains_run_loop:
  "drains execute hs w tvs w1 \<Longrightarrow>
     run_loop execute hs acc w = run_loop execute hs (acc @ concat (map snd tvs)) w1"
proof (induction arbitrary: acc rule: drains.induct)
  case (drains_none w)
  show ?case by simp
next
  case (drains_task w current_task msg task se tasks ctx wh rest w')
  have "run_body execute hs w = (Inr tasks, snd (ctx, wh))"
    using drains_task.hyps(2-5) by (rule run_body_drained)
  with drains_task.hyps(1)
  have "run_loop execute hs acc w = run_loop execute hs (acc @ tasks) wh"
    by (subst run_loop.simps) simp
  with drains_task.IH [of "acc @ tasks"] show ?case by simp
qed

lemma run_loop_sound:
  assumes "run_loop execute hs acc w = Some res"
  shows "\<exists>tvs w1. drains execute hs w tvs w1 \<and>
        (if has_task (fst w1) ''llm_engine''
         then \<exists>e. run_body execute hs w1 = (Inl e, snd res) \<and> fst res = Inl e
         else res = (Inr (acc @ concat (map snd tvs)), w1))"
  using assms
proof (induct execute hs acc w res
       rule: run_loop.raw_induct [rotated 1, consumes 1, case_names step])
  case (step run_loop' execute hs acc w res)
  show ?case
  proof (cases "has_task (fst w) ''llm_engine''")
    case False
    with step(2) have "res = (Inr acc, w)" by auto
    with False drains_none [of execute hs w] show ?thesis by fastforce
  next
    case True
    obtain r w' where body: "run_body execute hs w = (r, w')"
      by (cases "run_body execute hs w") auto
    show ?thesis
    proof (cases r)
      case (Inl e)
      with body True step(2) have "res = (Inl e, w')" by auto
      with body Inl True drains_none [of execute hs w] show ?thesis by fastforce
    next
      case (Inr tasks)
      with body True step(2) have "run_loop' execute hs (acc @ tasks) w' = Some res"
        by simp
      from step(1) [OF this] obtain tvs w1 where
        d: "drains execute hs w' tvs w1" and
        r: "if has_task (fst w1) ''llm_engine''
            then \<exists>e. run_body execute hs w1 = (Inl e, snd res) \<and> fst res = Inl e
            else res = (Inr ((acc @ tasks) @ concat (map snd tvs)), w1)" by blast
      from run_body_success body Inr obtain current_task msg task se ctx where
        "remove_task (fst w) ''llm_engine'' = (Inr current_task, msg)"
        "tmp_task current_task = Inr task"
        "execute (LLMContext task, (msg, snd w)) = (Inr (), se)"
        "handle_tasks hs se = (Inr tasks, (ctx, w'))" by blast
      with True d have "drains execute hs w ((task, tasks) # tvs) w1"
        by (blast intro: drains_task)
      with r show ?thesis by (intro exI [of _ "(task, tasks) # tvs"] exI [of _ w1]) auto
    qed
  qed
qed

lemma run_loop_returns:
  "run_loop execute hs acc w = Some (Inr out, w') \<Longrightarrow>
     \<not> has_task (fst w') ''llm_engine'' \<and>
     (\<exists>tvs. drains execute hs w tvs w' \<and> out = acc @ concat (map snd tvs))"
  using run_loop_sound [of execute hs acc w "(Inr out, w')"]
  by (auto split: if_splits)

lemma run_Some:
  "has_task msg ''llm_engine'' \<Longrightarrow>
     run execute hs (Some msg) x =
       map_option (\<lambda>(r, msg', x'). (r, Some msg', x')) (run_loop execute hs [] (msg, x))"
  by (simp add: run_def)

lemma drains_has_task:
  "drains execute hs w tvs w1 \<Longrightarrow> has_task (fst w1) ''llm_engine'' \<Longrightarrow>
     has_task (fst w) ''llm_engine''"
  by (induction rule: drains.induct) auto

lemma length_concat_vectors:
  "length (concat (map snd tvs)) = sum_list (map (length \<circ> snd) tvs)"
  by (induction tvs) auto

text \<open>
  C3. \<^verbatim>\<open>run\<close> fails with \<open>NullMessage\<close> on the null pointer, and with
  \<open>NoEngineTask\<close> on a message that has no \<^verbatim>\<open>llm_engine\<close> task when it is
  called. In both cases the result carries no output, and the message and the rest of
  the world are what they were: nothing was drained.
\<close>

theorem run_preconditions:
  "run execute hs None x = Some (Inl NullMessage, None, x) \<and>
   (\<not> has_task msg ''llm_engine'' \<longrightarrow>
      run execute hs (Some msg) x = Some (Inl NoEngineTask, Some msg, x))"
  by (simp add: run_def)

theorem run_preconditions_witness:
  "\<not> has_task ControlMessage_new ''llm_engine'' \<and>
   run noop_execute [accepting ''h'' [9]] (Some ControlMessage_new) [] =
     Some (Inl NoEngineTask, Some ControlMessage_new, []) \<and>
   \<not> has_task no_task ''llm_engine'' \<and>
   run noop_execute [accepting ''h'' [9]] (Some no_task) [] =
     Some (Inl NoEngineTask, Some no_task, [])"
proof -
  have a: "\<not> has_task ControlMessage_new ''llm_engine''" "\<not> has_task no_task ''llm_engine''"
    by (simp_all add: has_task_def no_task_def ControlMessage_new_def default_members_def)
  show ?thesis
    using a
      run_preconditions [of noop_execute "[accepting ''h'' [9]]" "[]" ControlMessage_new]
      run_preconditions [of noop_execute "[accepting ''h'' [9]]" "[]" no_task]
    by simp
qed

text \<open>
  C2. When \<^verbatim>\<open>run\<close> succeeds, the vector it returns is the concatenation, in the
  order the tasks were drained, of the vectors the handler chain returned for them, and
  its length is the sum of their lengths. Conversely, when the message has an
  \<^verbatim>\<open>llm_engine\<close> task and draining reaches a message without one, \<^verbatim>\<open>run\<close>
  returns, and returns that concatenation.
\<close>

theorem run_concatenates:
  "(run execute hs input_message x = Some (Inr out, input_message', x') \<longrightarrow>
     (\<exists>msg msg' tvs. input_message = Some msg \<and> input_message' = Some msg' \<and>
        drains execute hs (msg, x) tvs (msg', x') \<and>
        out = concat (map snd tvs) \<and> length out = sum_list (map (length \<circ> snd) tvs))) \<and>
   (has_task msg ''llm_engine'' \<and> drains execute hs (msg, x) tvs (msg', x') \<and>
    \<not> has_task msg' ''llm_engine'' \<longrightarrow>
      run execute hs (Some msg) x = Some (Inr (concat (map snd tvs)), Some msg', x'))"
proof (intro conjI impI)
  assume ok: "run execute hs input_message x = Some (Inr out, input_message', x')"
  then obtain msg where msg: "input_message = Some msg" and has: "has_task msg ''llm_engine''"
    by (auto simp: run_def split: option.splits if_splits)
  with ok obtain msg' where msg': "input_message' = Some msg'"
    and loop: "run_loop execute hs [] (msg, x) = Some (Inr out, (msg', x'))"
    by (auto simp: run_Some)
  from run_loop_returns [OF loop] obtain tvs where
    "drains execute hs (msg, x) tvs (msg', x')" "out = concat (map snd tvs)" by auto
  with msg msg' show "\<exists>msg msg' tvs. input_message = Some msg \<and> input_message' = Some msg' \<and>
        drains execute hs (msg, x) tvs (msg', x') \<and>
        out = concat (map snd tvs) \<and> length out = sum_list (map (length \<circ> snd) tvs)"
    by (auto simp: length_concat_vectors)
next
  assume a: "has_task msg ''llm_engine'' \<and> drains execute hs (msg, x) tvs (msg', x') \<and>
    \<not> has_task msg' ''llm_engine''"
  then have "run_loop execute hs [] (msg, x) = run_loop execute hs (concat (map snd tvs)) (msg', x')"
    using drains_run_loop [of execute hs "(msg, x)" tvs "(msg', x')" "[]"] by simp
  also from a have "\<dots> = Some (Inr (concat (map snd tvs)), (msg', x'))"
    by (subst run_loop.simps) simp
  finally show "run execute hs (Some msg) x = Some (Inr (concat (map snd tvs)), Some msg', x')"
    using a by (simp add: run_Some)
qed

theorem run_concatenates_witness:
  "has_task two_tasks ''llm_engine'' \<and>
   drains noop_execute
     [accepting_prompt ''h1'' ''a'' [1, 2], accepting_prompt ''h2'' ''b'' [3, 4, 5]]
     (two_tasks, []) [(prompt_task ''a'', [1, 2]), (prompt_task ''b'', [3, 4, 5])]
     (no_task, [''h1'', ''h1'', ''h2'']) \<and>
   \<not> has_task no_task ''llm_engine'' \<and>
   run noop_execute
     [accepting_prompt ''h1'' ''a'' [1, 2], accepting_prompt ''h2'' ''b'' [3, 4, 5]]
     (Some two_tasks) [] =
     Some (Inr [1, 2, 3, 4, 5], Some no_task, [''h1'', ''h1'', ''h2'']) \<and>
   (\<exists>msg msg' tvs. Some two_tasks = Some msg \<and> Some no_task = Some msg' \<and>
      drains noop_execute
        [accepting_prompt ''h1'' ''a'' [1, 2], accepting_prompt ''h2'' ''b'' [3, 4, 5]]
        (msg, []) tvs (msg', [''h1'', ''h1'', ''h2'']) \<and>
      [1, 2, 3, 4, 5] = concat (map snd tvs) \<and>
      length [1, 2, 3, 4, 5 :: message_ref] = sum_list (map (length \<circ> snd) tvs))"
proof -
  let ?hs = "[accepting_prompt ''h1'' ''a'' [1, 2], accepting_prompt ''h2'' ''b'' [3, 4, 5]]"
  let ?tvs = "[(prompt_task ''a'', [1, 2]), (prompt_task ''b'', [3, 4, 5])]"
  have "drains noop_execute ?hs (one_task, [''h1''])
          [(prompt_task ''b'', [3, 4, 5])] (no_task, [''h1'', ''h1'', ''h2''])"
    by (rule drains_task [where current_task = "engine_task ''b''" and msg = no_task
          and se = "(LLMContext (prompt_task ''b''), no_task, [''h1''])"
          and ctx = "LLMContext (prompt_task ''b'')", OF _ _ _ _ _ drains_none])
       (simp_all add: sample_defs handle_tasks_Cons)
  then have d: "drains noop_execute ?hs (two_tasks, []) ?tvs (no_task, [''h1'', ''h1'', ''h2''])"
    by (rule drains_task [where current_task = "engine_task ''a''" and msg = one_task
          and se = "(LLMContext (prompt_task ''a''), one_task, [])"
          and ctx = "LLMContext (prompt_task ''a'')", rotated 5])
       (simp_all add: sample_defs handle_tasks_Cons)
  have h: "has_task two_tasks ''llm_engine''" "\<not> has_task no_task ''llm_engine''"
    by (simp_all add: sample_defs)
  have r: "run noop_execute ?hs (Some two_tasks) [] =
     Some (Inr [1, 2, 3, 4, 5], Some no_task, [''h1'', ''h1'', ''h2''])"
    using d h
      run_concatenates [of noop_execute ?hs _ "[]" _ _ "[''h1'', ''h1'', ''h2'']"
        two_tasks ?tvs no_task]
    by simp
  show ?thesis
    using d h r
      run_concatenates [of noop_execute ?hs "Some two_tasks" "[]" "[1, 2, 3, 4, 5]" "Some no_task"
        "[''h1'', ''h1'', ''h2'']"]
    by simp
qed

text \<open>
  C4. When \<^verbatim>\<open>run\<close> returns successfully, the message has no \<^verbatim>\<open>llm_engine\<close>
  task left: its queue of that type is empty.
\<close>

theorem run_drains_all:
  "run execute hs input_message x = Some (Inr out, input_message', x') \<longrightarrow>
     (\<exists>msg'. input_message' = Some msg' \<and> \<not> has_task msg' ''llm_engine'' \<and>
        queued msg' ''llm_engine'' = [])"
proof
  assume ok: "run execute hs input_message x = Some (Inr out, input_message', x')"
  then obtain msg where msg: "input_message = Some msg" and has: "has_task msg ''llm_engine''"
    by (auto simp: run_def split: option.splits if_splits)
  with ok obtain msg' where msg': "input_message' = Some msg'"
    and loop: "run_loop execute hs [] (msg, x) = Some (Inr out, (msg', x'))"
    by (auto simp: run_Some)
  from run_loop_returns [OF loop] have "\<not> has_task msg' ''llm_engine''" by simp
  with msg' show "\<exists>msg'. input_message' = Some msg' \<and> \<not> has_task msg' ''llm_engine'' \<and>
        queued msg' ''llm_engine'' = []"
    by (auto simp: has_task_def queued_def split: option.splits)
qed

theorem run_drains_all_witness:
  "run noop_execute [accepting ''h'' [9]] (Some two_tasks) [] =
     Some (Inr [9, 9], Some no_task, [''h'', ''h'']) \<and>
   (\<exists>msg'. Some no_task = Some msg' \<and>
      \<not> has_task msg' ''llm_engine'' \<and> queued msg' ''llm_engine'' = [])"
proof -
  have r: "run noop_execute [accepting ''h'' [9]] (Some two_tasks) [] =
     Some (Inr [9, 9], Some no_task, [''h'', ''h''])"
    by (simp add: run_def run_loop.simps run_body_def handle_tasks_Cons sample_defs)
  show ?thesis
    using r
      run_drains_all [of noop_execute "[accepting ''h'' [9]]" "Some two_tasks" "[]"
        "[9, 9]" "Some no_task" "[''h'', ''h'']"]
    by simp
qed

text \<open>
  C5. When some tasks have been drained and handled, and the execution of the next one
  fails, or its execution succeeds and the handler chain fails, \<^verbatim>\<open>run\<close> completes
  with that error. The result is the error alone: the vectors collected for the earlier
  tasks are not part of it.
\<close>

theorem run_error_discards_outputs:
  assumes "drains execute hs (msg, x) tvs w1"
    and "has_task (fst w1) ''llm_engine''"
    and "remove_task (fst w1) ''llm_engine'' = (Inr current_task, msg1)"
    and "tmp_task current_task = Inr task"
    and "execute (LLMContext task, (msg1, snd w1)) = (Inl e, (ctx, w2)) \<or>
         (\<exists>se. execute (LLMContext task, (msg1, snd w1)) = (Inr (), se) \<and>
               handle_tasks hs se = (Inl e, (ctx, w2)))"
  shows "run execute hs (Some msg) x = Some (Inl e, Some (fst w2), snd w2)"
proof -
  from assms(3-5) have body: "run_body execute hs w1 = (Inl e, w2)"
    by (auto simp: run_body_def)
  from drains_has_task [OF assms(1,2)] have has: "has_task msg ''llm_engine''" by simp
  have "run_loop execute hs [] (msg, x) = run_loop execute hs ([] @ concat (map snd tvs)) w1"
    using assms(1) by (rule drains_run_loop)
  also from assms(2) body have "\<dots> = Some (Inl e, w2)"
    by (subst run_loop.simps) simp
  finally show ?thesis using has by (simp add: run_Some split: prod.splits)
qed

theorem run_error_discards_outputs_witness:
  "drains (fails_on ''b'') [accepting ''h'' [1, 2]] (two_tasks, [])
     [(prompt_task ''a'', [1, 2])] (one_task, [''h'']) \<and>
   run (fails_on ''b'') [accepting ''h'' [1, 2]] (Some two_tasks) [] =
     Some (Inl (ExternalError ''b''), Some no_task, [''h'']) \<and>
   drains noop_execute [accepting_prompt ''h'' ''a'' [1, 2]] (two_tasks, [])
     [(prompt_task ''a'', [1, 2])] (one_task, [''h'']) \<and>
   run noop_execute [accepting_prompt ''h'' ''a'' [1, 2]] (Some two_tasks) [] =
     Some (Inl UnhandledOutputs, Some no_task, [''h'', ''h''])"
proof -
  let ?a = "LLMContext (prompt_task ''a'')"
  let ?b = "LLMContext (prompt_task ''b'')"
  have d1: "drains (fails_on ''b'') [accepting ''h'' [1, 2]] (two_tasks, [])
              [(prompt_task ''a'', [1, 2])] (one_task, [''h''])"
    by (rule drains_task [where current_task = "engine_task ''a''" and msg = one_task
          and se = "(?a, one_task, [])" and ctx = ?a, OF _ _ _ _ _ drains_none])
       (simp_all add: sample_defs handle_tasks_Cons)
  have d2: "drains noop_execute [accepting_prompt ''h'' ''a'' [1, 2]] (two_tasks, [])
              [(prompt_task ''a'', [1, 2])] (one_task, [''h''])"
    by (rule drains_task [where current_task = "engine_task ''a''" and msg = one_task
          and se = "(?a, one_task, [])" and ctx = ?a, OF _ _ _ _ _ drains_none])
       (simp_all add: sample_defs handle_tasks_Cons)
  have next_task: "has_task (fst (one_task, [''h''])) ''llm_engine''"
    "remove_task (fst (one_task, [''h''])) ''llm_engine'' = (Inr (engine_task ''b''), no_task)"
    "tmp_task (engine_task ''b'') = Inr (prompt_task ''b'')"
    by (simp_all add: sample_defs)
  have f1: "fails_on ''b'' (?b, (no_task, snd (one_task, [''h'']))) =
              (Inl (ExternalError ''b''), (?b, (no_task, [''h''])))"
    by (simp add: sample_defs)
  have f2: "noop_execute (?b, (no_task, snd (one_task, [''h'']))) = (Inr (), (?b, no_task, [''h'']))"
    "handle_tasks [accepting_prompt ''h'' ''a'' [1, 2]] (?b, no_task, [''h'']) =
       (Inl UnhandledOutputs, (?b, (no_task, [''h'', ''h''])))"
    by (simp_all add: sample_defs handle_tasks_Cons)
  from f1 have c1: "fails_on ''b'' (?b, (no_task, snd (one_task, [''h'']))) =
                      (Inl (ExternalError ''b''), (?b, (no_task, [''h'']))) \<or>
         (\<exists>se. fails_on ''b'' (?b, (no_task, snd (one_task, [''h'']))) = (Inr (), se) \<and>
               handle_tasks [accepting ''h'' [1, 2]] se =
                 (Inl (ExternalError ''b''), (?b, (no_task, [''h'']))))"
    by (rule disjI1)
  from f2 have c2: "noop_execute (?b, (no_task, snd (one_task, [''h'']))) =
                      (Inl UnhandledOutputs, (?b, (no_task, [''h'', ''h'']))) \<or>
         (\<exists>se. noop_execute (?b, (no_task, snd (one_task, [''h'']))) = (Inr (), se) \<and>
               handle_tasks [accepting_prompt ''h'' ''a'' [1, 2]] se =
                 (Inl UnhandledOutputs, (?b, (no_task, [''h'', ''h'']))))"
    by blast
  show ?thesis
    using d1 d2
      run_error_discards_outputs [OF d1 next_task c1]
      run_error_discards_outputs [OF d2 next_task c2]
    by simp
qed

subsection \<open>Termination\<close>

text \<open>
  The loop ends, with a result or an error, whenever the collaborators leave the
  \<^verbatim>\<open>llm_engine\<close> queue no longer than they found it: each turn then shortens it.
\<close>

lemma handle_tasks_queue:
  assumes "\<And>h s. h \<in> set hs \<Longrightarrow>
             length (queued (fst (snd (snd (h s)))) ''llm_engine'')
               \<le> length (queued (fst (snd s)) ''llm_engine'')"
  shows "length (queued (fst (snd (snd (handle_tasks hs s)))) ''llm_engine'')
           \<le> length (queued (fst (snd s)) ''llm_engine'')"
  using assms
proof (induction hs arbitrary: s)
  case Nil
  show ?case by (simp add: handle_tasks_Nil)
next
  case (Cons h hs)
  obtain res s' where step: "h s = (res, s')" by (cases "h s") auto
  from Cons.prems [of h s] step
  have le: "length (queued (fst (snd s')) ''llm_engine'')
              \<le> length (queued (fst (snd s)) ''llm_engine'')"
    by simp
  have "length (queued (fst (snd (snd (handle_tasks hs s')))) ''llm_engine'')
           \<le> length (queued (fst (snd s')) ''llm_engine'')"
    by (rule Cons.IH) (simp add: Cons.prems)
  with le step show ?case
    by (auto simp: handle_tasks_Cons split: sum.splits option.splits)
qed

lemma run_body_queue:
  assumes ex: "\<And>s. length (queued (fst (snd (snd (execute s)))) ''llm_engine'')
                  \<le> length (queued (fst (snd s)) ''llm_engine'')"
    and hs: "\<And>h s. h \<in> set hs \<Longrightarrow>
             length (queued (fst (snd (snd (h s)))) ''llm_engine'')
               \<le> length (queued (fst (snd s)) ''llm_engine'')"
    and has: "has_task (fst w) ''llm_engine''"
  shows "length (queued (fst (snd (run_body execute hs w))) ''llm_engine'')
           < length (queued (fst w) ''llm_engine'')"
proof -
  from has obtain t rest where q: "m_tasks (fst w) ''llm_engine'' = Some (t # rest)"
    by (auto simp: has_task_def neq_Nil_conv split: option.splits)
  let ?msg = "(fst w)\<lparr>m_tasks := (m_tasks (fst w))(''llm_engine'' \<mapsto> rest)\<rparr>"
  from q have rm: "remove_task (fst w) ''llm_engine'' = (Inr t, ?msg)"
    by (simp add: remove_task_def)
  from q have lt: "length (queued ?msg ''llm_engine'') < length (queued (fst w) ''llm_engine'')"
    by (simp add: queued_def)
  show ?thesis
  proof (cases "tmp_task t")
    case (Inl e)
    with rm lt show ?thesis by (simp add: run_body_def)
  next
    case (Inr task)
    obtain r se where e: "execute (LLMContext task, (?msg, snd w)) = (r, se)"
      by (cases "execute (LLMContext task, (?msg, snd w))") auto
    from ex [of "(LLMContext task, (?msg, snd w))"] e
    have le: "length (queued (fst (snd se)) ''llm_engine'') \<le> length (queued ?msg ''llm_engine'')"
      by simp
    show ?thesis
    proof (cases r)
      case (Inl err)
      with rm Inr e le lt show ?thesis by (simp add: run_body_def)
    next
      case Inr': (Inr u)
      have "length (queued (fst (snd (snd (handle_tasks hs se)))) ''llm_engine'')
              \<le> length (queued (fst (snd se)) ''llm_engine'')"
        by (rule handle_tasks_queue, rule hs, assumption)
      moreover obtain r' sh where h: "handle_tasks hs se = (r', sh)"
        by (cases "handle_tasks hs se") auto
      moreover from rm Inr e Inr' h have "run_body execute hs w = (r', snd sh)"
        by (simp add: run_body_def)
      ultimately show ?thesis using le lt by simp
    qed
  qed
qed

lemma run_loop_terminates:
  assumes ex: "\<And>s. length (queued (fst (snd (snd (execute s)))) ''llm_engine'')
                  \<le> length (queued (fst (snd s)) ''llm_engine'')"
    and hs: "\<And>h s. h \<in> set hs \<Longrightarrow>
             length (queued (fst (snd (snd (h s)))) ''llm_engine'')
               \<le> length (queued (fst (snd s)) ''llm_engine'')"
  shows "\<exists>res. run_loop execute hs acc w = Some res"
proof (induction "length (queued (fst w) ''llm_engine'')" arbitrary: acc w rule: less_induct)
  case less
  show ?case
  proof (cases "has_task (fst w) ''llm_engine''")
    case False
    then show ?thesis by (subst run_loop.simps) simp
  next
    case True
    obtain r w' where body: "run_body execute hs w = (r, w')"
      by (cases "run_body execute hs w") auto
    have "length (queued (fst (snd (run_body execute hs w))) ''llm_engine'')
            < length (queued (fst w) ''llm_engine'')"
      by (rule run_body_queue, rule ex, rule hs, assumption, rule True)
    with body
    have lt: "length (queued (fst w') ''llm_engine'') < length (queued (fst w) ''llm_engine'')"
      by simp
    show ?thesis
    proof (cases r)
      case (Inl e)
      with True body show ?thesis by (subst run_loop.simps) simp
    next
      case (Inr tasks)
      have "run_loop execute hs acc w = run_loop execute hs (acc @ tasks) w'"
        using True body Inr by (subst run_loop.simps) simp
      with less [OF lt, of "acc @ tasks"] show ?thesis by simp
    qed
  qed
qed

lemma run_terminates:
  assumes "\<And>s. length (queued (fst (snd (snd (execute s)))) ''llm_engine'')
                  \<le> length (queued (fst (snd s)) ''llm_engine'')"
    and "\<And>h s. h \<in> set hs \<Longrightarrow>
             length (queued (fst (snd (snd (h s)))) ''llm_engine'')
               \<le> length (queued (fst (snd s)) ''llm_engine'')"
  shows "\<exists>res. run execute hs input_message x = Some res"
proof (cases input_message)
  case None
  then show ?thesis by (simp add: run_def)
next
  case (Some msg)
  have "\<exists>res. run_loop execute hs [] (msg, x) = Some res"
    by (rule run_loop_terminates, rule assms(1), rule assms(2), assumption)
  with Some show ?thesis by (auto simp: run_def)
qed

section \<open>Properties of the context\<close>

text \<open>
  C8. The first \<^verbatim>\<open>outputs_complete\<close> on a context succeeds. After it,
  \<open>state.values[name]\<close> is there and, when \<open>output_names\<close> is a non-empty list, has
  exactly the keys of the local outputs that occur in the list, each with the value the
  local outputs give it; when \<open>output_names\<close> is empty, it is the local outputs object
  itself. The completion signal is then ready.
\<close>

theorem outputs_complete_publishes:
  "(\<not> outputs_ready ctx \<longrightarrow> (\<exists>ctx'. outputs_complete ctx = Inr ctx')) \<and>
   (outputs_complete ctx = Inr ctx' \<longrightarrow>
      (\<exists>published. state_values ctx' (m_name ctx) = Some published \<and>
         (m_output_names ctx \<noteq> [] \<longrightarrow>
            dom published = dom (m_outputs ctx) \<inter> set (m_output_names ctx) \<and>
            (\<forall>k \<in> dom published. published k = m_outputs ctx k)) \<and>
         (m_output_names ctx = [] \<longrightarrow> published = m_outputs ctx)) \<and>
      outputs_ready ctx')"
  by (auto simp: outputs_complete_def restrict_map_def dom_def split: if_splits)

theorem outputs_complete_publishes_witness:
  "\<not> outputs_ready ((LLMContext (prompt_task ''a''))
       \<lparr>m_output_names := [''b'', ''c''],
        m_outputs := [''a'' \<mapsto> JNumber 1, ''b'' \<mapsto> JNumber 2]\<rparr>) \<and>
   outputs_complete ((LLMContext (prompt_task ''a''))
       \<lparr>m_output_names := [''b'', ''c''],
        m_outputs := [''a'' \<mapsto> JNumber 1, ''b'' \<mapsto> JNumber 2]\<rparr>) =
     Inr ((LLMContext (prompt_task ''a''))
       \<lparr>m_output_names := [''b'', ''c''],
        m_outputs := [''a'' \<mapsto> JNumber 1, ''b'' \<mapsto> JNumber 2],
        state_values := [[] \<mapsto> [''b'' \<mapsto> JNumber 2]], outputs_ready := True\<rparr>) \<and>
   dom [''b'' \<mapsto> JNumber 2] =
     dom [''a'' \<mapsto> JNumber 1, ''b'' \<mapsto> JNumber 2] \<inter> set [''b'', ''c''] \<and>
   outputs_complete ((LLMContext (prompt_task ''a''))
       \<lparr>m_outputs := [''a'' \<mapsto> JNumber 1, ''b'' \<mapsto> JNumber 2]\<rparr>) =
     Inr ((LLMContext (prompt_task ''a''))
       \<lparr>m_outputs := [''a'' \<mapsto> JNumber 1, ''b'' \<mapsto> JNumber 2],
        state_values := [[] \<mapsto> [''a'' \<mapsto> JNumber 1, ''b'' \<mapsto> JNumber 2]],
        outputs_ready := True\<rparr>)"
proof -
  let ?outs = "[''a'' \<mapsto> JNumber 1, ''b'' \<mapsto> JNumber 2]"
  let ?ctx = "(LLMContext (prompt_task ''a''))\<lparr>m_output_names := [''b'', ''c''], m_outputs := ?outs\<rparr>"
  let ?all = "(LLMContext (prompt_task ''a''))\<lparr>m_outputs := ?outs\<rparr>"
  have f: "?outs |` set [''b'', ''c''] = [''b'' \<mapsto> JNumber 2]"
    by (auto simp: restrict_map_def)
  have a: "outputs_complete ?ctx =
             Inr (?ctx\<lparr>state_values := [[] \<mapsto> [''b'' \<mapsto> JNumber 2]], outputs_ready := True\<rparr>)"
    unfolding outputs_complete_def using f by (simp add: LLMContext_def)
  have b: "outputs_complete ?all =
             Inr (?all\<lparr>state_values := [[] \<mapsto> ?outs], outputs_ready := True\<rparr>)"
    by (simp add: outputs_complete_def LLMContext_def)
  show ?thesis
    using a b
      outputs_complete_publishes [of ?ctx
        "?ctx\<lparr>state_values := [[] \<mapsto> [''b'' \<mapsto> JNumber 2]], outputs_ready := True\<rparr>"]
      outputs_complete_publishes [of ?all
        "?all\<lparr>state_values := [[] \<mapsto> ?outs], outputs_ready := True\<rparr>"]
    by (simp add: LLMContext_def)
qed

end
